theory Spec2Isabelle
  imports Main "HOL-Library.Word"
begin

section \<open>Machine integers\<close>

text \<open>
  The source asserts \<open>sizeof(long) == 8\<close>, so \<open>long\<close> is a 64-bit two's complement
  integer; \<open>std::size_t\<close> is the unsigned 64-bit integer of the same platform and
  \<open>int\<close> has 32 bits. Addition on words wraps around; \<open>\<le>s\<close> and \<open><s\<close> compare
  the signed readings.
\<close>

type_synonym long = "64 word"
type_synonym size_t = "64 word"
type_synonym cint = "32 word"

section \<open>Project\<close>

text \<open>
  \<open>class Project\<close>. The member \<open>hasDeniedFiles_\<close> (here \<open>p_hasDeniedFiles\<close>) is not initialised by any
  constructor; \<open>None\<close> stands for the flag that has never been assigned.
  The static \<open>std::atomic<long> idIndex_\<close> is passed in and returned.
\<close>

record Project =
  p_id :: long
  p_gitUrl :: string
  p_localPath :: string
  p_hasDeniedFiles :: "bool option"

text \<open>\<open>Project(gitUrl)\<close>: \<open>id_(idIndex_++)\<close>. The atomic post-increment wraps.\<close>

definition Project_auto :: "string \<Rightarrow> long \<Rightarrow> Project \<times> long" where
  "Project_auto gitUrl idIndex =
     (\<lparr>p_id = idIndex, p_gitUrl = gitUrl, p_localPath = [], p_hasDeniedFiles = None\<rparr>,
      idIndex + 1)"

text \<open>
  The loop of \<open>Project(gitUrl, id)\<close>:
  \<^verbatim>\<open>while (idIndex_ <= id) { long old = idIndex_;
       if (idIndex_.compare_exchange_weak(old, id + 1)) break; }\<close>
  A single thread constructs projects, so \<open>old\<close> always equals the counter; the weak
  compare-exchange may still fail spuriously and leave the counter as it is. The first
  argument is the number of spurious failures before the exchange succeeds.
\<close>

fun raise_idIndex :: "nat \<Rightarrow> long \<Rightarrow> long \<Rightarrow> long" where
  "raise_idIndex 0 idIndex i = (if idIndex \<le>s i then i + 1 else idIndex)"
| "raise_idIndex (Suc n) idIndex i = (if idIndex \<le>s i then raise_idIndex n idIndex i else idIndex)"

definition Project_with_id :: "nat \<Rightarrow> string \<Rightarrow> long \<Rightarrow> long \<Rightarrow> Project \<times> long" where
  "Project_with_id spurious gitUrl i idIndex =
     (\<lparr>p_id = i, p_gitUrl = gitUrl, p_localPath = [], p_hasDeniedFiles = None\<rparr>,
      raise_idIndex spurious idIndex i)"

text \<open>\<open>Project()\<close>, the default constructor.\<close>

definition Project_default :: Project where
  "Project_default = \<lparr>p_id = - 1, p_gitUrl = [], p_localPath = [], p_hasDeniedFiles = None\<rparr>"

section \<open>File snapshots\<close>

text \<open>
  \<open>Git::FileHistory\<close> and \<open>Git::FileInfo\<close> are declared in \<open>git.h\<close>; the fields
  are the ones the downloader reads.
\<close>

record FileInfo =
  fi_filename :: string

record FileHistory =
  fh_hash :: string
  fh_filename :: string
  fh_date :: cint

text \<open>
  \<open>class FileSnapshot\<close>. The content id is what \<open>getContentId\<close> handed back;
  \<open>None\<close> is the case where that call ended without returning a value.
\<close>

record FileSnapshot =
  fs_id :: long
  fs_commit :: string
  fs_relPath :: string
  fs_contentId :: "long option"
  fs_time :: cint

definition FileSnapshot_of :: "FileHistory \<Rightarrow> FileSnapshot" where
  "FileSnapshot_of h =
     \<lparr>fs_id = - 1, fs_commit = fh_hash h, fs_relPath = fh_filename h,
      fs_contentId = Some (- 1), fs_time = fh_date h\<rparr>"

text \<open>\<open>FileSnapshot::operator ==\<close>.\<close>

definition fs_eq :: "FileSnapshot \<Rightarrow> FileSnapshot \<Rightarrow> bool" where
  "fs_eq a b \<longleftrightarrow> fs_commit a = fs_commit b \<and> fs_relPath a = fs_relPath b"

text \<open>
  \<open>std::hash<FileSnapshot>\<close>: the sum, in \<open>std::size_t\<close>, of the string hashes of the
  commit and of the path. \<open>std::hash<std::string>\<close> is the standard library's; it is
  the parameter \<open>H\<close>.
\<close>

definition fs_hash :: "(string \<Rightarrow> size_t) \<Rightarrow> FileSnapshot \<Rightarrow> size_t" where
  "fs_hash H f = H (fs_commit f) + H (fs_relPath f)"

section \<open>Strings\<close>

text \<open>
  \<open>STR(...)\<close> builds a string with \<open>operator <<\<close>; integers are written in decimal,
  negative ones with a leading minus sign.
\<close>

definition digit_char :: "nat \<Rightarrow> char" where
  "digit_char d = ''0123456789'' ! d"

fun show_nat :: "nat \<Rightarrow> string" where
  "show_nat n = (if n < 10 then [digit_char n] else show_nat (n div 10) @ [digit_char (n mod 10)])"

declare show_nat.simps [simp del]

definition show_long :: "long \<Rightarrow> string" where
  "show_long i = (if i <s 0 then CHR ''-'' # show_nat (nat (- sint i)) else show_nat (nat (sint i)))"

text \<open>\<open>operator <<\<close> for a project: the url, then the id in brackets.\<close>

definition show_Project :: "Project \<Rightarrow> string" where
  "show_Project task = p_gitUrl task @ '' ['' @ show_long (p_id task) @ '']''"

section \<open>The collaborators outside this file\<close>

text \<open>
  Modelled from the spec: the git layer (\<open>git.h\<close>: clone, branch listing, checkout,
  tracked files, per-file history, blob retrieval) is not part of this file.
  A git working copy as its calls see it: the branches in the order in which
  the set returned by \<open>Git::GetBranches\<close> is iterated, the branch that is checked out,
  whether a checkout of a branch succeeds, the files tracked on a branch, the history of
  a file, and the text of a file at a history entry (\<open>None\<close> when the file is absent
  there).
\<close>

record gitrepo =
  g_branches :: "string list"
  g_current :: string
  g_checkout :: "string \<Rightarrow> bool"
  g_tracked :: "string \<Rightarrow> FileInfo list"
  g_history :: "string \<Rightarrow> FileInfo \<Rightarrow> FileHistory list"
  g_revision :: "FileHistory \<Rightarrow> string option"

text \<open>
  Modelled from the spec: what \<open>Git::Clone\<close> of a url does: it produces a working copy, or it fails and either
  leaves nothing or leaves the directory it had started to fill.
\<close>

datatype clone_outcome = Cloned gitrepo | CloneFailed bool

text \<open>
  The functions that are declared in headers outside this file and do not depend on the
  state of the run, as parameters: \<open>Hash::Calculate\<close>, \<open>Settings::IdToPath\<close>,
  \<open>Settings::ClosesPathDir\<close>, \<open>PatternList::check\<close> (its result and the value it
  stores in \<open>denied\<close>), and the remote repositories by url.
\<close>

record 'h externals =
  Calculate :: "string \<Rightarrow> 'h"
  IdToPath :: "long \<Rightarrow> string"
  ClosesPathDir :: "long \<Rightarrow> bool"
  check :: "string \<Rightarrow> bool \<times> bool"
  remote :: "string \<Rightarrow> clone_outcome"

datatype event = Log string | Error string | is_Cout: Cout string

datatype exn = runtime_error string

section \<open>The state of a run\<close>

text \<open>
  The static members (\<open>fileHashes_\<close>, \<open>Project::idIndex_\<close>), the member \<open>files_\<close> of
  the one \<open>Downloader\<close> object, the task queue of the worker framework, the output
  channels, and the disk: the directories that exist, every file written through an
  \<open>ofstream\<close> (path and text, in the order of writing), and the working copies by path.
  \<open>fetched\<close> records the calls of \<open>Git::GetFileRevision\<close>; the program does not
  read it.
\<close>

record 'h world =
  fileHashes :: "('h \<times> long) list"
  files :: "FileSnapshot list"
  idIndex :: long
  queue :: "Project list"
  out :: "event list"
  dirs :: "string list"
  written :: "(string \<times> string) list"
  repos :: "string \<rightharpoonup> gitrepo"
  fetched :: "(string \<times> FileHistory) list"

definition initial :: "'h world" where
  "initial = \<lparr>fileHashes = [], files = [], idIndex = 0, queue = [], out = [],
              dirs = [], written = [], repos = Map.empty, fetched = []\<rparr>"

text \<open>
  Modelled from the spec: \<open>Log\<close>, \<open>Error\<close> and \<open>Schedule\<close> belong to the worker
  framework (\<open>worker.h\<close>): the two channels append a message, \<open>Schedule\<close> enqueues
  the project. \<open>cout\<close> is a line written to \<open>std::cout\<close>.
\<close>

definition Log_msg :: "string \<Rightarrow> 'h world \<Rightarrow> 'h world" where
  "Log_msg m s = s\<lparr>out := out s @ [Log m]\<rparr>"

definition Error_msg :: "string \<Rightarrow> 'h world \<Rightarrow> 'h world" where
  "Error_msg m s = s\<lparr>out := out s @ [Error m]\<rparr>"

definition cout :: "string \<Rightarrow> 'h world \<Rightarrow> 'h world" where
  "cout m s = s\<lparr>out := out s @ [Cout m]\<rparr>"

definition Schedule :: "Project \<Rightarrow> 'h world \<Rightarrow> 'h world" where
  "Schedule p s = s\<lparr>queue := queue s @ [p]\<rparr>"

subsection \<open>Paths\<close>

text \<open>\<open>main\<close> sets \<open>Settings::OutputPath\<close> before anything else runs.\<close>

definition OutputPath :: string where
  "OutputPath = ''/data/ele''"

definition TempPath :: string where
  "TempPath = OutputPath @ ''/temp''"

definition FilesPath :: string where
  "FilesPath = OutputPath @ ''/files''"

text \<open>
  Modelled from the spec: the path utilities of \<open>filesystem.h\<close>, on the directories of
  the state. \<open>deletePath\<close> removes a directory with everything inside it, so also the
  working copy that lives there.
\<close>

definition isDirectory :: "string \<Rightarrow> 'h world \<Rightarrow> bool" where
  "isDirectory path s \<longleftrightarrow> path \<in> set (dirs s)"

definition createPathIfMissing :: "string \<Rightarrow> 'h world \<Rightarrow> 'h world" where
  "createPathIfMissing path s = (if path \<in> set (dirs s) then s else s\<lparr>dirs := dirs s @ [path]\<rparr>)"

definition inside :: "string \<Rightarrow> string \<Rightarrow> bool" where
  "inside path d \<longleftrightarrow> d = path \<or> take (Suc (length path)) d = path @ ''/''"

definition deletePath :: "string \<Rightarrow> 'h world \<Rightarrow> 'h world" where
  "deletePath path s =
     s\<lparr>dirs := filter (\<lambda>d. \<not> inside path d) (dirs s), repos := (repos s)(path := None)\<rparr>"

section \<open>The content store\<close>

text \<open>
  \<open>Downloader::getContentId\<close>. The block in braces looks the hash up and, when it is
  absent, takes the size of the table as the new id and inserts the pair: \<open>Inl\<close> is the
  id found (the function returns it), \<open>Inr\<close> the id just inserted.
\<close>

definition register_hash :: "'h externals \<Rightarrow> string \<Rightarrow> 'h world \<Rightarrow> (long + long) \<times> 'h world" where
  "register_hash X text s =
     (let h = Calculate X text in
      case map_of (fileHashes s) h of
        Some i \<Rightarrow> (Inl i, s)
      | None \<Rightarrow>
          (let i = (of_nat (length (fileHashes s)) :: long)
           in (Inr i, s\<lparr>fileHashes := fileHashes s @ [(h, i)]\<rparr>)))"

text \<open>
  The statements after the block: the text is written to \<open><id>.raw\<close> in the directory
  of the id, and a line goes to \<open>std::cout\<close> when the id closes its directory.
\<close>

definition store_text :: "'h externals \<Rightarrow> string \<Rightarrow> long \<Rightarrow> 'h world \<Rightarrow> 'h world" where
  "store_text X text i s =
     (let targetDir = FilesPath @ IdToPath X i;
          s1 = createPathIfMissing targetDir s;
          s2 = s1\<lparr>written := written s1 @ [(targetDir @ ''/'' @ show_long i @ ''.raw'', text)]\<rparr>
      in if ClosesPathDir X i then cout (''done target dir '' @ targetDir) s2 else s2)"

text \<open>
  The whole function. After the statements that store the text the body ends: there is
  no \<open>return\<close> on that path, so the call hands no value back; that is the result \<open>None\<close>.
\<close>

definition getContentId :: "'h externals \<Rightarrow> string \<Rightarrow> 'h world \<Rightarrow> long option \<times> 'h world" where
  "getContentId X text s =
     (case register_hash X text s of
        (Inl i, s1) \<Rightarrow> (Some i, s1)
      | (Inr i, s1) \<Rightarrow> (None, store_text X text i s1))"

section \<open>Git\<close>

text \<open>
  Modelled from the spec: the calls of namespace \<open>Git\<close> (\<open>git.h\<close>), on the working
  copies of the state. \<open>Git::Clone\<close> creates the directory and the working copy, or
  fails as the remote says; \<open>Git::SetBranch\<close> changes the branch that is checked out
  when the checkout succeeds; the others read the working copy. A path without a working
  copy has no branches and no files, and nothing can be checked out there.
\<close>

definition Git_Clone :: "'h externals \<Rightarrow> string \<Rightarrow> string \<Rightarrow> 'h world \<Rightarrow> bool \<times> 'h world" where
  "Git_Clone X url path s =
     (case remote X url of
        Cloned r \<Rightarrow> (True, (createPathIfMissing path s)\<lparr>repos := (repos s)(path \<mapsto> r)\<rparr>)
      | CloneFailed leaves \<Rightarrow> (False, if leaves then createPathIfMissing path s else s))"

definition Git_GetBranches :: "string \<Rightarrow> 'h world \<Rightarrow> string list" where
  "Git_GetBranches path s = (case repos s path of Some r \<Rightarrow> remdups (g_branches r) | None \<Rightarrow> [])"

definition Git_GetCurrentBranch :: "string \<Rightarrow> 'h world \<Rightarrow> string" where
  "Git_GetCurrentBranch path s = (case repos s path of Some r \<Rightarrow> g_current r | None \<Rightarrow> [])"

definition Git_SetBranch :: "string \<Rightarrow> string \<Rightarrow> 'h world \<Rightarrow> bool \<times> 'h world" where
  "Git_SetBranch path b s =
     (case repos s path of
        Some r \<Rightarrow>
          if g_checkout r b then (True, s\<lparr>repos := (repos s)(path \<mapsto> r\<lparr>g_current := b\<rparr>)\<rparr>)
          else (False, s)
      | None \<Rightarrow> (False, s))"

definition Git_GetFileInfo :: "string \<Rightarrow> 'h world \<Rightarrow> FileInfo list" where
  "Git_GetFileInfo path s =
     (case repos s path of Some r \<Rightarrow> g_tracked r (g_current r) | None \<Rightarrow> [])"

definition Git_GetFileHistory :: "string \<Rightarrow> FileInfo \<Rightarrow> 'h world \<Rightarrow> FileHistory list" where
  "Git_GetFileHistory path file s =
     (case repos s path of Some r \<Rightarrow> g_history r (g_current r) file | None \<Rightarrow> [])"

definition Git_GetFileRevision :: "string \<Rightarrow> FileHistory \<Rightarrow> 'h world \<Rightarrow> string option \<times> 'h world" where
  "Git_GetFileRevision path fh s =
     (case repos s path of Some r \<Rightarrow> g_revision r fh | None \<Rightarrow> None,
      s\<lparr>fetched := fetched s @ [(path, fh)]\<rparr>)"

section \<open>Processing the files of a branch\<close>

text \<open>
  The body of the inner loop of \<open>Downloader::processFiles\<close>, for one history entry.
  \<open>files_.find(fs)\<close> compares with \<open>operator ==\<close>.
\<close>

definition processHistoryEntry :: "'h externals \<Rightarrow> Project \<Rightarrow> FileHistory \<Rightarrow> 'h world \<Rightarrow> 'h world" where
  "processHistoryEntry X p fh s =
     (let fs = FileSnapshot_of fh in
      if find (fs_eq fs) (files s) = None then
        (case Git_GetFileRevision (p_localPath p) fh s of
           (Some text, s1) \<Rightarrow>
             (let fs1 = fs\<lparr>fs_id := of_nat (length (files s1))\<rparr>;
                  (cid, s2) = getContentId X text s1;
                  fs2 = fs1\<lparr>fs_contentId := cid\<rparr>
              in s2\<lparr>files := files s2 @ [fs2]\<rparr>)
         | (None, s1) \<Rightarrow> s1)
      else s)"

text \<open>The body of the outer loop, for one tracked file.\<close>

definition processFile :: "'h externals \<Rightarrow> FileInfo \<Rightarrow> Project \<times> 'h world \<Rightarrow> Project \<times> 'h world" where
  "processFile X file ps =
     (let (p, s) = ps; (accepted, denied) = check X (fi_filename file) in
      if accepted then
        (p, fold (processHistoryEntry X p) (Git_GetFileHistory (p_localPath p) file s) s)
      else if denied then (p\<lparr>p_hasDeniedFiles := Some True\<rparr>, s)
      else (p, s))"

definition processFiles :: "'h externals \<Rightarrow> Project \<Rightarrow> string \<Rightarrow> 'h world \<Rightarrow> Project \<times> 'h world" where
  "processFiles X p branchName s = fold (processFile X) (Git_GetFileInfo (p_localPath p) s) (p, s)"

section \<open>Walking the branches\<close>

text \<open>
  The inner loop of \<open>Downloader::processAllBranches\<close>: take the first pending branch,
  remove it, try to check it out; on failure report and take the next. \<open>None\<close> is the
  \<open>return\<close> on the empty set.
\<close>

fun nextBranch :: "string \<Rightarrow> string list \<Rightarrow> 'h world \<Rightarrow> (string \<times> string list) option \<times> 'h world" where
  "nextBranch path [] s = (None, s)"
| "nextBranch path (b # branches) s =
     (case Git_SetBranch path b s of
        (True, s1) \<Rightarrow> (Some (b, branches), s1)
      | (False, s1) \<Rightarrow> nextBranch path branches (Error_msg (''Unable to checkout branch '' @ b) s1))"

lemma nextBranch_shorter:
  "nextBranch path branches s = (Some (c, rest), s') \<Longrightarrow> length rest < length branches"
proof (induction branches arbitrary: s)
  case Nil
  then show ?case by simp
next
  case (Cons b bs)
  obtain ok s1 where sb: "Git_SetBranch path b s = (ok, s1)"
    by (cases "Git_SetBranch path b s")
  show ?case
  proof (cases ok)
    case True
    with Cons.prems sb show ?thesis by simp
  next
    case False
    with Cons.prems sb
    have "nextBranch path bs (Error_msg (''Unable to checkout branch '' @ b) s1) = (Some (c, rest), s')"
      by simp
    from Cons.IH [OF this] show ?thesis by simp
  qed
qed

text \<open>The outer loop, from the pending set and the current branch.\<close>

function branchLoop :: "'h externals \<Rightarrow> Project \<Rightarrow> string list \<Rightarrow> string \<Rightarrow> 'h world \<Rightarrow> Project \<times> 'h world" where
  "branchLoop X p branches current s =
     (let pending = removeAll current branches;
          s1 = Log_msg (''Analyzing branch '' @ current) s;
          (p2, s2) = processFiles X p current s1
      in case nextBranch (p_localPath p2) pending s2 of
           (None, s3) \<Rightarrow> (p2, s3)
         | (Some (c, rest), s3) \<Rightarrow> branchLoop X p2 rest c s3)"
  by pat_completeness auto
termination
proof (relation "measure (\<lambda>(X, p, branches, current, s). length branches)", goal_cases)
  case 1
  show ?case by simp
next
  case 2
  then show ?case
    by (auto dest!: nextBranch_shorter [OF sym] intro: less_le_trans [OF _ length_removeAll_less_eq])
qed

declare branchLoop.simps [simp del]

definition processAllBranches :: "'h externals \<Rightarrow> Project \<Rightarrow> 'h world \<Rightarrow> Project \<times> 'h world" where
  "processAllBranches X p s =
     branchLoop X p (Git_GetBranches (p_localPath p) s) (Git_GetCurrentBranch (p_localPath p) s) s"

section \<open>One project\<close>

text \<open>
  \<open>Downloader::download\<close>. The first component of the result is the exception that
  leaves the function, if any.
\<close>

definition download :: "'h externals \<Rightarrow> Project \<Rightarrow> 'h world \<Rightarrow> exn option \<times> Project \<times> 'h world" where
  "download X p0 s =
     (let p = p0\<lparr>p_localPath := TempPath @ ''/'' @ show_long (p_id p0)\<rparr>;
          s1 = (if isDirectory (p_localPath p) s then deletePath (p_localPath p) s else s);
          (cloned, s2) = Git_Clone X (p_gitUrl p) (p_localPath p) s1
      in if \<not> cloned then
           (Some (runtime_error (''Unable to download project '' @ p_gitUrl p)), p, s2)
         else
           (None, p,
            Log_msg (show_Project p @ '' successfully cloned to local path '' @ p_localPath p) s2))"

text \<open>\<open>Downloader::deleteProject\<close>.\<close>

definition deleteProject :: "Project \<Rightarrow> 'h world \<Rightarrow> 'h world" where
  "deleteProject p s = Log_msg (p_localPath p @ '' deleted.'') (deletePath (p_localPath p) s)"

text \<open>
  \<open>Downloader::run\<close>: the three calls in sequence. An exception thrown by
  \<open>download\<close> is not caught in \<open>run\<close> and leaves it.
\<close>

definition run :: "'h externals \<Rightarrow> Project \<Rightarrow> 'h world \<Rightarrow> exn option \<times> Project \<times> 'h world" where
  "run X task s =
     (case download X task (Log_msg (''Processing task '' @ show_Project task) s) of
        (Some e, p, s1) \<Rightarrow> (Some e, p, s1)
      | (None, p, s1) \<Rightarrow>
          (let (p2, s2) = processAllBranches X p s1
           in (None, p2, deleteProject p2 s2)))"

section \<open>Seed intake\<close>

text \<open>
  \<open>std::strtol(s, endptr, 10)\<close> of the C library: white space is skipped, an optional
  sign is read, then the longest run of decimal digits; without digits the value is 0;
  a value out of range is clamped. It reports nothing by exception. (The call in
  \<open>FeedProjectsFrom\<close> passes an uninitialised \<open>char **\<close> as \<open>endptr\<close>; the store
  through it is left out here.)
\<close>

definition isspace :: "char \<Rightarrow> bool" where
  "isspace c \<longleftrightarrow> c \<in> set [CHR '' '', CHR 0x09, CHR 0x0A, CHR 0x0B, CHR 0x0C, CHR 0x0D]"

definition isdigit :: "char \<Rightarrow> bool" where
  "isdigit c \<longleftrightarrow> c \<in> set ''0123456789''"

definition digit_value :: "char \<Rightarrow> nat" where
  "digit_value c = of_char c - 48"

fun digits_value :: "nat \<Rightarrow> string \<Rightarrow> nat" where
  "digits_value acc [] = acc"
| "digits_value acc (c # cs) =
     (if isdigit c then digits_value (acc * 10 + digit_value c) cs else acc)"

definition strtol :: "string \<Rightarrow> long" where
  "strtol str =
     (let s1 = dropWhile isspace str;
          (neg, s2) = (case s1 of
                         [] \<Rightarrow> (False, [])
                       | c # cs \<Rightarrow> if c = CHR ''-'' then (True, cs)
                                  else if c = CHR ''+'' then (False, cs) else (False, s1));
          v = digits_value 0 s2
      in if neg then (if v > 2 ^ 63 then word_of_int (- (2 ^ 63)) else word_of_int (- int v))
         else (if v \<ge> 2 ^ 63 then word_of_int (2 ^ 63 - 1) else word_of_nat v))"

text \<open>
  The body of the loop of \<open>Downloader::FeedProjectsFrom\<close> for one row of the CSV parser;
  \<open>line\<close> is the \<open>unsigned\<close> counter after its increment. Neither \<open>strtol\<close> nor
  the constructor throws, so with two fields the \<open>continue\<close> is always reached and the
  handler never runs. The result of the constructor does not depend on the number of
  spurious failures of its compare-exchange (\<open>raise_idIndex_le\<close>, \<open>raise_idIndex_gt\<close>);
  it is taken as 0.
\<close>

definition feedRow :: "string \<Rightarrow> cint \<Rightarrow> string list \<Rightarrow> 'h world \<Rightarrow> 'h world" where
  "feedRow filename line x s =
     (if length x = 1 then
        (let (p, k) = Project_auto (x ! 0) (idIndex s) in Schedule p (s\<lparr>idIndex := k\<rparr>))
      else if length x = 2 then
        (let (p, k) = Project_with_id 0 (x ! 0) (strtol (x ! 1)) (idIndex s)
         in Schedule p (s\<lparr>idIndex := k\<rparr>))
      else
        Error_msg (filename @ '', line '' @ show_nat (unat line)
                   @ '': Invalid format of the project url input, skipping.'') s)"

fun feedRows :: "string \<Rightarrow> cint \<Rightarrow> string list list \<Rightarrow> 'h world \<Rightarrow> 'h world" where
  "feedRows filename line [] s = s"
| "feedRows filename line (x # rows) s = feedRows filename (line + 1) rows (feedRow filename (line + 1) x s)"

text \<open>
  \<open>FeedProjectsFrom\<close>. The \<open>CSVParser\<close> of \<open>csv.h\<close> is outside this file; the rows
  it yields for the file, each a list of fields, are the second argument.
\<close>

definition FeedProjectsFrom :: "string \<Rightarrow> string list list \<Rightarrow> 'h world \<Rightarrow> 'h world" where
  "FeedProjectsFrom filename rows s = feedRows filename 0 rows s"

section \<open>Several workers on the content store\<close>

text \<open>
  \<open>getContentId\<close> has no lock (its block is marked \<open>TODO lock this\<close>). A worker inside
  the function is either about to enter the block with its text, or past the block with
  a fresh id and the text still to be written, or done with the value it returned. The
  block is taken as one step: this is what a lock around the braces would give, and any
  finer interleaving only adds behaviours.
\<close>

datatype worker = Calling string | Storing string long | Finished "long option"

definition worker_step :: "'h externals \<Rightarrow> worker \<Rightarrow> 'h world \<Rightarrow> worker \<times> 'h world" where
  "worker_step X w s =
     (case w of
        Calling text \<Rightarrow>
          (case register_hash X text s of
             (Inl i, s1) \<Rightarrow> (Finished (Some i), s1)
           | (Inr i, s1) \<Rightarrow> (Storing text i, s1))
      | Storing text i \<Rightarrow> (Finished None, store_text X text i s)
      | Finished r \<Rightarrow> (Finished r, s))"

text \<open>A schedule names, step by step, the worker that moves.\<close>

fun interleave :: "'h externals \<Rightarrow> nat list \<Rightarrow> worker list \<times> 'h world \<Rightarrow> worker list \<times> 'h world" where
  "interleave X [] c = c"
| "interleave X (t # ts) (ws, s) =
     (if t < length ws then
        (let (w, s1) = worker_step X (ws ! t) s in interleave X ts (ws[t := w], s1))
      else interleave X ts (ws, s))"

section \<open>A small instance\<close>

text \<open>
  One history entry whose file is present, one whose file is absent; a repository with
  the branches A, B and C, on B, where A cannot be checked out; collaborators where the
  hash of a text is the text itself.
\<close>

definition demo_fh :: FileHistory where
  "demo_fh = \<lparr>fh_hash = ''c1'', fh_filename = ''a.js'', fh_date = 1\<rparr>"

definition demo_gone :: FileHistory where
  "demo_gone = \<lparr>fh_hash = ''c0'', fh_filename = ''a.js'', fh_date = 0\<rparr>"

definition demo_repo :: gitrepo where
  "demo_repo =
     \<lparr>g_branches = [''A'', ''B'', ''C''], g_current = ''B'',
      g_checkout = (\<lambda>b. b \<noteq> ''A''),
      g_tracked = (\<lambda>b. [\<lparr>fi_filename = ''a.js''\<rparr>]),
      g_history = (\<lambda>b f. [demo_fh, demo_gone]),
      g_revision = (\<lambda>fh. if fh_hash fh = ''c1'' then Some ''x'' else None)\<rparr>"

definition demoX :: "bool \<Rightarrow> string externals" where
  "demoX closes =
     \<lparr>Calculate = (\<lambda>text. text), IdToPath = (\<lambda>i. ''/0''), ClosesPathDir = (\<lambda>i. closes),
      check = (\<lambda>f. (True, False)),
      remote = (\<lambda>url. if url = ''bad'' then CloneFailed True else Cloned demo_repo)\<rparr>"

text \<open>The project with id 0 and its working copy, as \<open>download\<close> leaves them.\<close>

definition demo_p :: Project where
  "demo_p = \<lparr>p_id = 0, p_gitUrl = ''good'', p_localPath = ''/data/ele/temp/0'',
              p_hasDeniedFiles = None\<rparr>"

definition demo_world :: "string world" where
  "demo_world = initial\<lparr>dirs := [''/data/ele/temp/0''],
                         repos := [''/data/ele/temp/0'' \<mapsto> demo_repo]\<rparr>"

definition demo_task :: "string \<Rightarrow> long \<Rightarrow> Project" where
  "demo_task url i = \<lparr>p_id = i, p_gitUrl = url, p_localPath = [], p_hasDeniedFiles = None\<rparr>"

text \<open>The state after the one worker has run the project \<open>good\<close> with id 0.\<close>

definition after_first :: "string world" where
  "after_first = snd (snd (run (demoX False) (demo_task ''good'' 0) initial))"

section \<open>What a branch walk reports\<close>

text \<open>
  The messages of \<open>Log\<close> and \<open>Error\<close> among the output (the lines on \<open>std::cout\<close>
  come from the content store), and the message a pending branch gives rise to: the
  \<open>Log\<close> line that precedes \<open>processFiles\<close> when its checkout succeeds, the
  \<open>Error\<close> line when it fails.
\<close>

definition branch_events :: "event list \<Rightarrow> event list" where
  "branch_events es = filter (\<lambda>e. \<not> is_Cout e) es"

definition branch_report :: "(string \<Rightarrow> bool) \<Rightarrow> string \<Rightarrow> event" where
  "branch_report chk b =
     (if chk b then Log (''Analyzing branch '' @ b) else Error (''Unable to checkout branch '' @ b))"

text \<open>
  The walk in the words of the specification (branch iteration): process the branch that
  is checked out, without a checkout; then take the remaining branches one by one in the
  order of the set, and for each either check it out and process its files, or report
  the failed checkout and go on with the next. It ends when no branch is left.
\<close>

fun walk_pending :: "'h externals \<Rightarrow> string list \<Rightarrow> Project \<times> 'h world \<Rightarrow> Project \<times> 'h world" where
  "walk_pending X [] ps = ps"
| "walk_pending X (b # bs) ps =
     (case Git_SetBranch (p_localPath (fst ps)) b (snd ps) of
        (True, s1) \<Rightarrow>
          walk_pending X bs (processFiles X (fst ps) b (Log_msg (''Analyzing branch '' @ b) s1))
      | (False, s1) \<Rightarrow>
          walk_pending X bs (fst ps, Error_msg (''Unable to checkout branch '' @ b) s1))"

definition walk_branches :: "'h externals \<Rightarrow> Project \<Rightarrow> 'h world \<Rightarrow> Project \<times> 'h world" where
  "walk_branches X p s =
     (let current = Git_GetCurrentBranch (p_localPath p) s;
          pending = removeAll current (Git_GetBranches (p_localPath p) s)
      in walk_pending X pending (processFiles X p current (Log_msg (''Analyzing branch '' @ current) s)))"

text \<open>A step that touches neither the working copies nor those messages.\<close>

definition quiet :: "'h world \<Rightarrow> 'h world \<Rightarrow> bool" where
  "quiet s s' \<longleftrightarrow> repos s' = repos s \<and> branch_events (out s') = branch_events (out s)"

section \<open>Project identifiers\<close>

lemma raise_idIndex_le: "k \<le>s i \<Longrightarrow> raise_idIndex n k i = i + 1"
  by (induction n) simp_all

lemma raise_idIndex_gt: "\<not> k \<le>s i \<Longrightarrow> raise_idIndex n k i = k"
  by (cases n) simp_all

text \<open>
  C6. With the allocator at \<open>k\<close>, constructing a project with the explicit id \<open>m\<close>
  gives the project the id \<open>m\<close>. When \<open>m \<ge> k\<close> (signed) the allocator becomes
  \<open>m + 1\<close> and the next automatically numbered project gets \<open>m + 1\<close> (64-bit
  addition; the integer \<open>m + 1\<close> whenever \<open>m\<close> is below the largest \<open>long\<close>). When
  \<open>m < k\<close> the allocator stays \<open>k\<close> and the next automatically numbered project
  gets \<open>k\<close>. This holds however often the weak compare-exchange fails spuriously.
\<close>

theorem explicit_id_raises_allocator:
  "p_id (fst (Project_with_id n url m k)) = m
   \<and> (k \<le>s m \<longrightarrow>
        snd (Project_with_id n url m k) = m + 1
        \<and> p_id (fst (Project_auto url' (snd (Project_with_id n url m k)))) = m + 1
        \<and> (sint m < 2 ^ 63 - 1 \<longrightarrow>
             sint (p_id (fst (Project_auto url' (snd (Project_with_id n url m k))))) = sint m + 1))
   \<and> (m <s k \<longrightarrow>
        snd (Project_with_id n url m k) = k
        \<and> p_id (fst (Project_auto url' (snd (Project_with_id n url m k)))) = k)"
proof -
  have "sint (m + 1) = sint m + 1" if "sint m < 2 ^ 63 - 1"
  proof -
    have "signed_take_bit 63 (sint m + 1) = sint m + 1"
      using that sint_ge [of m] by (intro signed_take_bit_int_eq_self) simp_all
    then show ?thesis by (simp add: sint_word_ariths)
  qed
  moreover have "\<not> k \<le>s m" if "m <s k"
    using that by (simp add: word_sle_eq word_sless_alt)
  ultimately show ?thesis
    by (simp add: Project_with_id_def Project_auto_def raise_idIndex_le raise_idIndex_gt)
qed

theorem explicit_id_raises_allocator_witness:
  "(3::long) \<le>s 7 \<and> sint (7::long) < 2 ^ 63 - 1 \<and> (3::long) <s 7
   \<and> p_id (fst (Project_with_id 2 ''u'' 7 3)) = 7
   \<and> snd (Project_with_id 2 ''u'' 7 3) = 8
   \<and> p_id (fst (Project_auto ''v'' (snd (Project_with_id 2 ''u'' 7 3)))) = 8
   \<and> sint (p_id (fst (Project_auto ''v'' (snd (Project_with_id 2 ''u'' 7 3))))) = 8
   \<and> snd (Project_with_id 2 ''u'' 3 7) = 7
   \<and> p_id (fst (Project_auto ''v'' (snd (Project_with_id 2 ''u'' 3 7)))) = 7"
proof -
  have le: "(3::long) \<le>s 7" by (simp add: word_sle_eq)
  have lt: "(3::long) <s 7" by (simp add: word_sless_alt)
  have b: "sint (7::long) < 2 ^ 63 - 1" by simp
  show ?thesis
    using le lt b
      explicit_id_raises_allocator [of 2 "''u''" 7 3 "''v''"]
      explicit_id_raises_allocator [of 2 "''u''" 3 7 "''v''"]
    by (simp add: Project_auto_def)
qed

section \<open>Hashing of snapshots\<close>

text \<open>
  C10. Two snapshots that compare equal under \<open>operator ==\<close> (same commit, same
  path) have the same \<open>std::hash<FileSnapshot>\<close> value, whatever the string hash is.
\<close>

theorem fs_hash_respects_eq: "fs_eq a b \<Longrightarrow> fs_hash H a = fs_hash H b"
  by (simp add: fs_eq_def fs_hash_def)

theorem fs_hash_respects_eq_witness:
  "fs_eq (FileSnapshot_of \<lparr>fh_hash = ''c1'', fh_filename = ''a.js'', fh_date = 1\<rparr>)
         (FileSnapshot_of \<lparr>fh_hash = ''c1'', fh_filename = ''a.js'', fh_date = 2\<rparr>\<lparr>fs_id := 5\<rparr>)
   \<and> fs_hash (\<lambda>s. of_nat (length s))
        (FileSnapshot_of \<lparr>fh_hash = ''c1'', fh_filename = ''a.js'', fh_date = 1\<rparr>)
     = fs_hash (\<lambda>s. of_nat (length s))
        (FileSnapshot_of \<lparr>fh_hash = ''c1'', fh_filename = ''a.js'', fh_date = 2\<rparr>\<lparr>fs_id := 5\<rparr>)"
proof -
  have e: "fs_eq (FileSnapshot_of \<lparr>fh_hash = ''c1'', fh_filename = ''a.js'', fh_date = 1\<rparr>)
         (FileSnapshot_of \<lparr>fh_hash = ''c1'', fh_filename = ''a.js'', fh_date = 2\<rparr>\<lparr>fs_id := 5\<rparr>)"
    by (simp add: fs_eq_def FileSnapshot_of_def)
  from e fs_hash_respects_eq [OF e] show ?thesis by simp
qed

section \<open>Registration in the content store\<close>

lemma getContentId_hit:
  "map_of (fileHashes s) (Calculate X text) = Some i \<Longrightarrow> getContentId X text s = (Some i, s)"
  by (simp add: getContentId_def register_hash_def)

lemma getContentId_miss:
  "map_of (fileHashes s) (Calculate X text) = None \<Longrightarrow>
   getContentId X text s =
     (None, store_text X text (of_nat (length (fileHashes s)))
              (s\<lparr>fileHashes := fileHashes s @ [(Calculate X text, of_nat (length (fileHashes s)))]\<rparr>))"
  by (simp add: getContentId_def register_hash_def Let_def)

lemma fileHashes_store_text: "fileHashes (store_text X text i s) = fileHashes s"
  by (simp add: store_text_def createPathIfMissing_def cout_def Let_def)

lemma getContentId_registers:
  "map_of (fileHashes (snd (getContentId X text s))) (Calculate X text) \<noteq> None"
  by (cases "map_of (fileHashes s) (Calculate X text)")
     (simp_all add: getContentId_hit getContentId_miss fileHashes_store_text map_add_def)

lemma getContentId_again:
  "\<exists>i. getContentId X text (snd (getContentId X text s)) = (Some i, snd (getContentId X text s))"
proof (cases "map_of (fileHashes s) (Calculate X text)")
  case None
  then have "map_of (fileHashes (snd (getContentId X text s))) (Calculate X text)
               = Some (of_nat (length (fileHashes s)))"
    by (simp add: getContentId_miss fileHashes_store_text map_add_def)
  then show ?thesis
    by (simp add: getContentId_hit)
next
  case (Some i)
  then show ?thesis by (simp add: getContentId_hit)
qed

lemma written_getContentId_hit:
  "map_of (fileHashes s) (Calculate X text) \<noteq> None \<Longrightarrow> written (snd (getContentId X text s)) = written s"
  by (auto simp: getContentId_hit)

text \<open>
  C1. On a miss \<open>getContentId\<close> allocates the id, inserts it and writes the file, and
  then ends without a \<open>return\<close>: the call yields no id, whether or not the id closes its
  directory. Here: the text \<open>x\<close> submitted to the empty store, with
  \<open>ClosesPathDir\<close> false and true. The id 0 is in the table afterwards and the file
  is written, but the caller does not get it.
\<close>

theorem getContentId_miss_returns_no_id:
  "fst (getContentId (demoX False) ''x'' initial) = None
   \<and> fst (getContentId (demoX True) ''x'' initial) = None
   \<and> fileHashes (snd (getContentId (demoX False) ''x'' initial)) = [(''x'', 0)]
   \<and> written (snd (getContentId (demoX False) ''x'' initial)) = [(''/data/ele/files/0/0.raw'', ''x'')]"
  by (simp add: getContentId_def register_hash_def store_text_def initial_def demoX_def
      createPathIfMissing_def cout_def Let_def FilesPath_def OutputPath_def
      show_long_def show_nat.simps digit_char_def word_sless_alt)

text \<open>
  C2. The first submission of \<open>x\<close> to the empty store yields no id, the second yields
  0: the two calls do not return the same id. The rest of the claim holds there: the
  file is written once, by the first call, and the second call changes nothing.
\<close>

theorem getContentId_twice_differs:
  "fst (getContentId (demoX False) ''x'' initial) = None
   \<and> getContentId (demoX False) ''x'' (snd (getContentId (demoX False) ''x'' initial))
       = (Some 0, snd (getContentId (demoX False) ''x'' initial))
   \<and> written (snd (getContentId (demoX False) ''x'' initial)) = [(''/data/ele/files/0/0.raw'', ''x'')]"
  by (simp add: getContentId_def register_hash_def store_text_def initial_def demoX_def
      createPathIfMissing_def cout_def Let_def FilesPath_def OutputPath_def
      show_long_def show_nat.simps digit_char_def word_sless_alt)

section \<open>Workers without a lock\<close>

lemma worker_alone:
  "interleave X [0, 0] ([Calling text], s)
     = ([Finished (fst (getContentId X text s))], snd (getContentId X text s))"
  by (simp add: worker_step_def getContentId_def split: prod.splits sum.splits)

text \<open>
  C9. Two workers submit the text \<open>x\<close> to the empty store. The first runs the block
  (miss: id 0 is inserted), then the second runs the block (hit). The second worker has
  been handed the id 0 while the first has not yet written the file: nothing is on disk.
\<close>

theorem id_handed_out_before_write:
  "fst (interleave (demoX False) [0, 1] ([Calling ''x'', Calling ''x''], initial))
     = [Storing ''x'' 0, Finished (Some 0)]
   \<and> written (snd (interleave (demoX False) [0, 1] ([Calling ''x'', Calling ''x''], initial))) = []"
  by (simp add: worker_step_def register_hash_def initial_def demoX_def)

section \<open>Seed lines\<close>

text \<open>
  C4. The line \<open>https://x/y.git,abc\<close> has two fields; \<open>strtol\<close> reads \<open>abc\<close> as 0
  and throws nothing, so a project with the id 0 is scheduled and no error is reported.
  A line with four fields after it is reported with its line number, and the single
  field after that is scheduled with the next automatic id.
\<close>

theorem non_numeric_id_is_scheduled:
  "queue (FeedProjectsFrom ''f.csv'' [[''https://x/y.git'', ''abc'']] (initial :: string world))
     = [\<lparr>p_id = 0, p_gitUrl = ''https://x/y.git'', p_localPath = [], p_hasDeniedFiles = None\<rparr>]
   \<and> out (FeedProjectsFrom ''f.csv'' [[''https://x/y.git'', ''abc'']] (initial :: string world)) = []
   \<and> map p_id (queue (FeedProjectsFrom ''f.csv''
         [[''https://x/y.git'', ''abc''], [[], [], [], []], [''https://x/z.git'']]
         (initial :: string world))) = [0, 1]
   \<and> out (FeedProjectsFrom ''f.csv''
         [[''https://x/y.git'', ''abc''], [[], [], [], []], [''https://x/z.git'']]
         (initial :: string world))
       = [Error ''f.csv, line 2: Invalid format of the project url input, skipping.'']"
  by (simp add: FeedProjectsFrom_def feedRow_def initial_def strtol_def isspace_def isdigit_def
      Schedule_def Project_with_id_def Project_auto_def Error_msg_def Let_def
      show_nat.simps digit_char_def word_sle_eq)

section \<open>History entries\<close>

lemma files_store_text: "files (store_text X text i s) = files s"
  by (simp add: store_text_def createPathIfMissing_def cout_def Let_def)

lemma files_getContentId: "files (snd (getContentId X text s)) = files s"
  by (cases "map_of (fileHashes s) (Calculate X text)")
     (simp_all add: getContentId_hit getContentId_miss files_store_text)

lemma processHistoryEntry_absent:
  assumes "fst (Git_GetFileRevision (p_localPath p) fh s) = None"
  shows "processHistoryEntry X p fh s = s
         \<or> processHistoryEntry X p fh s = s\<lparr>fetched := fetched s @ [(p_localPath p, fh)]\<rparr>"
proof -
  from assms have "Git_GetFileRevision (p_localPath p) fh s
      = (None, s\<lparr>fetched := fetched s @ [(p_localPath p, fh)]\<rparr>)"
    by (simp add: Git_GetFileRevision_def)
  then show ?thesis
    by (simp add: processHistoryEntry_def Let_def)
qed

lemma processHistoryEntry_present:
  assumes "fst (Git_GetFileRevision (p_localPath p) fh s) = Some text"
    and "find (fs_eq (FileSnapshot_of fh)) (files s) = None"
  shows "processHistoryEntry X p fh s =
     (snd (getContentId X text (s\<lparr>fetched := fetched s @ [(p_localPath p, fh)]\<rparr>)))
       \<lparr>files := files s @ [(FileSnapshot_of fh)\<lparr>fs_id := of_nat (length (files s)),
          fs_contentId := fst (getContentId X text (s\<lparr>fetched := fetched s @ [(p_localPath p, fh)]\<rparr>))\<rparr>]\<rparr>"
proof -
  from assms(1) have "Git_GetFileRevision (p_localPath p) fh s
      = (Some text, s\<lparr>fetched := fetched s @ [(p_localPath p, fh)]\<rparr>)"
    by (simp add: Git_GetFileRevision_def)
  moreover have "files (snd (getContentId X text (s\<lparr>fetched := fetched s @ [(p_localPath p, fh)]\<rparr>))) = files s"
    by (simp add: files_getContentId)
  ultimately show ?thesis using assms(2)
    by (auto simp: processHistoryEntry_def Let_def split: prod.splits)
qed

text \<open>
  C8. When \<open>Git::GetFileRevision\<close> reports the file absent at a history entry, the
  entry adds no snapshot to \<open>files_\<close>, allocates no content id and writes nothing.
  Conversely, when an entry changes \<open>files_\<close>, the text was retrieved, its hash is in
  the table afterwards, and exactly one snapshot with the commit and path of the entry
  was appended.
\<close>

theorem absent_revision_leaves_no_trace:
  "(fst (Git_GetFileRevision (p_localPath p) fh s) = None \<longrightarrow>
      files (processHistoryEntry X p fh s) = files s
      \<and> fileHashes (processHistoryEntry X p fh s) = fileHashes s
      \<and> written (processHistoryEntry X p fh s) = written s)
   \<and> (files (processHistoryEntry X p fh s) \<noteq> files s \<longrightarrow>
      (\<exists>text f. fst (Git_GetFileRevision (p_localPath p) fh s) = Some text
         \<and> map_of (fileHashes (processHistoryEntry X p fh s)) (Calculate X text) \<noteq> None
         \<and> files (processHistoryEntry X p fh s) = files s @ [f]
         \<and> fs_commit f = fh_hash fh \<and> fs_relPath f = fh_filename fh))"
proof (intro conjI impI)
  assume a: "fst (Git_GetFileRevision (p_localPath p) fh s) = None"
  from processHistoryEntry_absent [OF a, of X]
  show "files (processHistoryEntry X p fh s) = files s" by auto
  from processHistoryEntry_absent [OF a, of X]
  show "fileHashes (processHistoryEntry X p fh s) = fileHashes s" by auto
  from processHistoryEntry_absent [OF a, of X]
  show "written (processHistoryEntry X p fh s) = written s" by auto
next
  let ?s1 = "s\<lparr>fetched := fetched s @ [(p_localPath p, fh)]\<rparr>"
  assume ch: "files (processHistoryEntry X p fh s) \<noteq> files s"
  then have nf: "find (fs_eq (FileSnapshot_of fh)) (files s) = None"
    by (auto simp: processHistoryEntry_def Let_def split: if_splits)
  from ch processHistoryEntry_absent [of p fh s X]
  obtain content where t: "fst (Git_GetFileRevision (p_localPath p) fh s) = Some content"
    by (cases "fst (Git_GetFileRevision (p_localPath p) fh s)") auto
  note e = processHistoryEntry_present [OF t nf, of X]
  have "map_of (fileHashes (processHistoryEntry X p fh s)) (Calculate X content) \<noteq> None"
    unfolding e using getContentId_registers [of X content ?s1] by simp
  moreover have "files (processHistoryEntry X p fh s) = files s @ [(FileSnapshot_of fh)\<lparr>fs_id := of_nat (length (files s)),
          fs_contentId := fst (getContentId X content ?s1)\<rparr>]"
    unfolding e by simp
  ultimately show "\<exists>text f. fst (Git_GetFileRevision (p_localPath p) fh s) = Some text
         \<and> map_of (fileHashes (processHistoryEntry X p fh s)) (Calculate X text) \<noteq> None
         \<and> files (processHistoryEntry X p fh s) = files s @ [f]
         \<and> fs_commit f = fh_hash fh \<and> fs_relPath f = fh_filename fh"
    using t by (auto simp: FileSnapshot_of_def)
qed


theorem absent_revision_leaves_no_trace_witness:
  "fst (Git_GetFileRevision (p_localPath demo_p) demo_gone demo_world) = None
   \<and> files (processHistoryEntry (demoX False) demo_p demo_gone demo_world) = files demo_world
   \<and> fileHashes (processHistoryEntry (demoX False) demo_p demo_gone demo_world) = fileHashes demo_world
   \<and> written (processHistoryEntry (demoX False) demo_p demo_gone demo_world) = written demo_world
   \<and> files (processHistoryEntry (demoX False) demo_p demo_fh demo_world) \<noteq> files demo_world
   \<and> (\<exists>text f. fst (Git_GetFileRevision (p_localPath demo_p) demo_fh demo_world) = Some text
         \<and> map_of (fileHashes (processHistoryEntry (demoX False) demo_p demo_fh demo_world))
              (Calculate (demoX False) text) \<noteq> None
         \<and> files (processHistoryEntry (demoX False) demo_p demo_fh demo_world) = files demo_world @ [f]
         \<and> fs_commit f = fh_hash demo_fh \<and> fs_relPath f = fh_filename demo_fh)"
proof -
  have a: "fst (Git_GetFileRevision (p_localPath demo_p) demo_gone demo_world) = None"
    by (simp add: Git_GetFileRevision_def demo_p_def demo_world_def demo_repo_def demo_gone_def)
  have b: "fst (Git_GetFileRevision (p_localPath demo_p) demo_fh demo_world) = Some ''x''"
    by (simp add: Git_GetFileRevision_def demo_p_def demo_world_def demo_repo_def demo_fh_def)
  have c: "find (fs_eq (FileSnapshot_of demo_fh)) (files demo_world) = None"
    by (simp add: demo_world_def initial_def)
  have d: "files (processHistoryEntry (demoX False) demo_p demo_fh demo_world) \<noteq> files demo_world"
    unfolding processHistoryEntry_present [OF b c] by simp
  from a d absent_revision_leaves_no_trace [of demo_p demo_gone demo_world "demoX False"]
    absent_revision_leaves_no_trace [of demo_p demo_fh demo_world "demoX False"]
  show ?thesis by blast
qed

section \<open>The branch walk\<close>

lemma quiet_refl: "quiet s s"
  by (simp add: quiet_def)

lemma quiet_trans: "quiet s s1 \<Longrightarrow> quiet s1 s2 \<Longrightarrow> quiet s s2"
  by (simp add: quiet_def)

lemma quiet_store_text: "quiet s (store_text X text i s)"
  by (simp add: quiet_def store_text_def createPathIfMissing_def cout_def Let_def branch_events_def)

lemma quiet_getContentId: "quiet s (snd (getContentId X text s))"
proof (cases "map_of (fileHashes s) (Calculate X text)")
  case None
  have "quiet s (s\<lparr>fileHashes := fileHashes s @ [(Calculate X text, of_nat (length (fileHashes s)))]\<rparr>)"
    by (simp add: quiet_def)
  then show ?thesis
    using None quiet_store_text quiet_trans by (fastforce simp: getContentId_miss)
next
  case (Some i)
  then show ?thesis by (simp add: getContentId_hit quiet_refl)
qed

lemma quiet_processHistoryEntry: "quiet s (processHistoryEntry X p fh s)"
proof -
  let ?s1 = "s\<lparr>fetched := fetched s @ [(p_localPath p, fh)]\<rparr>"
  have q1: "quiet s ?s1" by (simp add: quiet_def)
  have g: "Git_GetFileRevision (p_localPath p) fh s = (fst (Git_GetFileRevision (p_localPath p) fh s), ?s1)"
    by (simp add: Git_GetFileRevision_def)
  show ?thesis
  proof (cases "find (fs_eq (FileSnapshot_of fh)) (files s) = None")
    case False
    then show ?thesis by (auto simp: processHistoryEntry_def Let_def quiet_refl)
  next
    case True
    show ?thesis
    proof (cases "fst (Git_GetFileRevision (p_localPath p) fh s)")
      case None
      with processHistoryEntry_absent [of p fh s X] q1 show ?thesis
        by (auto simp: quiet_refl)
    next
      case (Some content)
      have "quiet ?s1 (snd (getContentId X content ?s1))"
        by (rule quiet_getContentId)
      with q1 have "quiet s (snd (getContentId X content ?s1))"
        by (rule quiet_trans)
      then show ?thesis
        unfolding processHistoryEntry_present [OF Some True] by (simp add: quiet_def)
    qed
  qed
qed

lemma quiet_fold_history: "quiet s (fold (processHistoryEntry X p) fhs s)"
proof (induction fhs arbitrary: s)
  case Nil
  show ?case by (simp add: quiet_refl)
next
  case (Cons fh fhs)
  have "quiet s (fold (processHistoryEntry X p) fhs (processHistoryEntry X p fh s))"
    by (rule quiet_trans [OF quiet_processHistoryEntry Cons.IH])
  then show ?case by simp
qed

lemma processFile_quiet:
  "quiet s (snd (processFile X file (p, s))) \<and> p_localPath (fst (processFile X file (p, s))) = p_localPath p"
  by (simp add: processFile_def quiet_refl quiet_fold_history split: prod.splits)

lemma fold_processFile_quiet:
  "quiet s (snd (fold (processFile X) fis (p, s)))
   \<and> p_localPath (fst (fold (processFile X) fis (p, s))) = p_localPath p"
proof (induction fis arbitrary: p s)
  case Nil
  show ?case by (simp add: quiet_refl)
next
  case (Cons fi fis)
  obtain p1 s1 where e: "processFile X fi (p, s) = (p1, s1)"
    by (cases "processFile X fi (p, s)")
  with processFile_quiet [of s X fi p] have "quiet s s1" "p_localPath p1 = p_localPath p"
    by simp_all
  with Cons.IH [of s1 p1] e show ?case
    by (auto intro: quiet_trans)
qed

lemma processFiles_quiet:
  "quiet s (snd (processFiles X p b s)) \<and> p_localPath (fst (processFiles X p b s)) = p_localPath p"
  by (simp add: processFiles_def fold_processFile_quiet)

lemma Git_SetBranch_cases:
  assumes "repos s path = Some r"
  shows "Git_SetBranch path b s =
     (if g_checkout r b then (True, s\<lparr>repos := (repos s)(path \<mapsto> r\<lparr>g_current := b\<rparr>)\<rparr>) else (False, s))"
  using assms by (simp add: Git_SetBranch_def)

lemma nextBranch_events:
  assumes "repos s path = Some r"
  shows "case nextBranch path bs s of
           (None, s') \<Rightarrow>
             branch_events (out s') = branch_events (out s) @ map (branch_report (g_checkout r)) bs
         | (Some (c, rest), s') \<Rightarrow>
             (\<exists>fails. bs = fails @ c # rest
                \<and> branch_events (out s') @ [branch_report (g_checkout r) c]
                    = branch_events (out s) @ map (branch_report (g_checkout r)) (fails @ [c]))
             \<and> g_checkout r c
             \<and> repos s' path = Some (r\<lparr>g_current := c\<rparr>)"
  using assms
proof (induction bs arbitrary: s)
  case Nil
  show ?case by simp
next
  case (Cons b bs)
  show ?case
  proof (cases "g_checkout r b")
    case True
    with Cons.prems have "nextBranch path (b # bs) s
        = (Some (b, bs), s\<lparr>repos := (repos s)(path \<mapsto> r\<lparr>g_current := b\<rparr>)\<rparr>)"
      by (simp add: Git_SetBranch_cases)
    with True show ?thesis by simp
  next
    case False
    let ?s1 = "Error_msg (''Unable to checkout branch '' @ b) s"
    from False Cons.prems have e: "nextBranch path (b # bs) s = nextBranch path bs ?s1"
      by (simp add: Git_SetBranch_cases)
    have r1: "repos ?s1 path = Some r"
      using Cons.prems by (simp add: Error_msg_def)
    have o1: "branch_events (out ?s1) = branch_events (out s) @ [branch_report (g_checkout r) b]"
      using False by (simp add: Error_msg_def branch_events_def branch_report_def)
    show ?thesis
    proof (cases "nextBranch path bs ?s1")
      case (Pair res s')
      show ?thesis
      proof (cases res)
        case None
        with Pair Cons.IH [OF r1] e o1 show ?thesis by simp
      next
        case (Some cr)
        obtain c rest where cr: "cr = (c, rest)" by (cases cr)
        from Pair Some cr Cons.IH [OF r1] obtain fails where
          f: "bs = fails @ c # rest"
             "branch_events (out s') @ [branch_report (g_checkout r) c]
                = branch_events (out ?s1) @ map (branch_report (g_checkout r)) (fails @ [c])"
          and g: "g_checkout r c" "repos s' path = Some (r\<lparr>g_current := c\<rparr>)"
          by auto
        from f o1 have "b # bs = (b # fails) @ c # rest
             \<and> branch_events (out s') @ [branch_report (g_checkout r) c]
                = branch_events (out s) @ map (branch_report (g_checkout r)) ((b # fails) @ [c])"
          by simp
        then have "\<exists>fails. b # bs = fails @ c # rest
             \<and> branch_events (out s') @ [branch_report (g_checkout r) c]
                = branch_events (out s) @ map (branch_report (g_checkout r)) (fails @ [c])"
          by blast
        with g Pair Some cr e show ?thesis by simp
      qed
    qed
  qed
qed

lemma branchLoop_unfold:
  "branchLoop X p branches current s =
     (let ps = processFiles X p current (Log_msg (''Analyzing branch '' @ current) s) in
      case nextBranch (p_localPath (fst ps)) (removeAll current branches) (snd ps) of
        (None, s3) \<Rightarrow> (fst ps, s3)
      | (Some (c, rest), s3) \<Rightarrow> branchLoop X (fst ps) rest c s3)"
  by (subst branchLoop.simps) (simp only: Let_def case_prod_beta)

lemma branchLoop_done:
  assumes "nextBranch (p_localPath (fst (processFiles X p current (Log_msg (''Analyzing branch '' @ current) s))))
             (removeAll current branches)
             (snd (processFiles X p current (Log_msg (''Analyzing branch '' @ current) s))) = (None, s3)"
  shows "branchLoop X p branches current s
         = (fst (processFiles X p current (Log_msg (''Analyzing branch '' @ current) s)), s3)"
  by (subst branchLoop_unfold) (simp only: Let_def assms prod.case option.case)

lemma branchLoop_next:
  assumes "nextBranch (p_localPath (fst (processFiles X p current (Log_msg (''Analyzing branch '' @ current) s))))
             (removeAll current branches)
             (snd (processFiles X p current (Log_msg (''Analyzing branch '' @ current) s))) = (Some (c, rest), s3)"
  shows "branchLoop X p branches current s
         = branchLoop X (fst (processFiles X p current (Log_msg (''Analyzing branch '' @ current) s))) rest c s3"
  by (subst branchLoop_unfold) (simp only: Let_def assms prod.case option.case)

lemma branchLoop_events:
  assumes "repos s (p_localPath p) = Some r" and "distinct branches"
  shows "branch_events (out (snd (branchLoop X p branches current s)))
         = branch_events (out s) @ Log (''Analyzing branch '' @ current)
             # map (branch_report (g_checkout r)) (removeAll current branches)"
  using assms
proof (induction "length branches" arbitrary: p branches current s r rule: less_induct)
  case less
  let ?s1 = "Log_msg (''Analyzing branch '' @ current) s"
  let ?p2 = "fst (processFiles X p current ?s1)"
  let ?s2 = "snd (processFiles X p current ?s1)"
  let ?pending = "removeAll current branches"
  from processFiles_quiet [of ?s1 X p current]
  have q: "repos ?s2 = repos ?s1" "branch_events (out ?s2) = branch_events (out ?s1)"
    and lp: "p_localPath ?p2 = p_localPath p"
    by (simp_all add: quiet_def)
  have r2: "repos ?s2 (p_localPath ?p2) = Some r"
    using less.prems(1) q(1) lp by (simp add: Log_msg_def)
  have o2: "branch_events (out ?s2) = branch_events (out s) @ [Log (''Analyzing branch '' @ current)]"
    using q(2) by (simp add: Log_msg_def branch_events_def)
  have dp: "distinct ?pending"
    using less.prems(2) by (simp add: distinct_removeAll)
  obtain res s3 where nb: "nextBranch (p_localPath ?p2) ?pending ?s2 = (res, s3)"
    by (cases "nextBranch (p_localPath ?p2) ?pending ?s2")
  show ?case
  proof (cases res)
    case None
    with nb nextBranch_events [OF r2, of ?pending] o2 show ?thesis
      by (simp add: branchLoop_done)
  next
    case (Some cr)
    obtain c rest where cr: "cr = (c, rest)" by (cases cr)
    from nb Some cr nextBranch_events [OF r2, of ?pending] obtain fails where
      f: "?pending = fails @ c # rest"
         "branch_events (out s3) @ [branch_report (g_checkout r) c]
            = branch_events (out ?s2) @ map (branch_report (g_checkout r)) (fails @ [c])"
      and g: "g_checkout r c" "repos s3 (p_localPath ?p2) = Some (r\<lparr>g_current := c\<rparr>)"
      by auto
    have len: "length rest < length branches"
    proof -
      have "length rest < length ?pending" using f(1) by simp
      also have "\<dots> \<le> length branches" by (rule length_removeAll_less_eq)
      finally show ?thesis .
    qed
    from dp f(1) have dr: "distinct rest" and cn: "c \<notin> set rest"
      by auto
    from less.hyps [OF len g(2) dr, of c]
    have "branch_events (out (snd (branchLoop X ?p2 rest c s3)))
          = branch_events (out s3) @ Log (''Analyzing branch '' @ c)
              # map (branch_report (g_checkout r)) (removeAll c rest)"
      by simp
    also have "removeAll c rest = rest"
      using cn by simp
    also have "branch_events (out s3) @ Log (''Analyzing branch '' @ c) # map (branch_report (g_checkout r)) rest
        = (branch_events (out s3) @ [branch_report (g_checkout r) c]) @ map (branch_report (g_checkout r)) rest"
      using g(1) by (simp add: branch_report_def)
    also have "\<dots> = branch_events (out s) @ Log (''Analyzing branch '' @ current)
             # map (branch_report (g_checkout r)) ?pending"
      unfolding f(2) o2 by (simp add: f(1))
    finally show ?thesis
      using nb Some cr by (simp add: branchLoop_next)
  qed
qed


lemma branchLoop_localPath:
  "p_localPath (fst (branchLoop X p branches current s)) = p_localPath p"
proof (induction "length branches" arbitrary: p branches current s rule: less_induct)
  case less
  let ?ps = "processFiles X p current (Log_msg (''Analyzing branch '' @ current) s)"
  have lp: "p_localPath (fst ?ps) = p_localPath p"
    using processFiles_quiet [of "Log_msg (''Analyzing branch '' @ current) s" X p current] by simp
  obtain res s3 where nb: "nextBranch (p_localPath (fst ?ps)) (removeAll current branches) (snd ?ps) = (res, s3)"
    by (cases "nextBranch (p_localPath (fst ?ps)) (removeAll current branches) (snd ?ps)")
  show ?case
  proof (cases res)
    case None
    with nb lp show ?thesis by (simp add: branchLoop_done)
  next
    case (Some cr)
    obtain c rest where cr: "cr = (c, rest)" by (cases cr)
    from nb Some cr have "length rest < length (removeAll current branches)"
      by (auto dest: nextBranch_shorter)
    also have "\<dots> \<le> length branches" by (rule length_removeAll_less_eq)
    finally have "p_localPath (fst (branchLoop X (fst ?ps) rest c s3)) = p_localPath (fst ?ps)"
      by (rule less.hyps)
    with nb Some cr lp show ?thesis by (simp add: branchLoop_next)
  qed
qed

lemma nextBranch_suffix:
  "nextBranch path bs s = (Some (c, rest), s') \<Longrightarrow> \<exists>fails. bs = fails @ c # rest"
proof (induction bs arbitrary: s)
  case Nil
  then show ?case by simp
next
  case (Cons b bs)
  obtain ok s1 where sb: "Git_SetBranch path b s = (ok, s1)"
    by (cases "Git_SetBranch path b s")
  show ?case
  proof (cases ok)
    case True
    with Cons.prems sb have "b # bs = [] @ c # rest" by simp
    then show ?thesis by blast
  next
    case False
    with Cons.prems sb
    have "nextBranch path bs (Error_msg (''Unable to checkout branch '' @ b) s1) = (Some (c, rest), s')"
      by simp
    from Cons.IH [OF this] obtain fails where "bs = fails @ c # rest" by blast
    then have "b # bs = (b # fails) @ c # rest" by simp
    then show ?thesis by blast
  qed
qed

lemma walk_pending_None:
  "nextBranch (p_localPath p) bs s = (None, s3) \<Longrightarrow> walk_pending X bs (p, s) = (p, s3)"
proof (induction bs arbitrary: s)
  case Nil
  then show ?case by simp
next
  case (Cons b bs)
  obtain ok s1 where sb: "Git_SetBranch (p_localPath p) b s = (ok, s1)"
    by (cases "Git_SetBranch (p_localPath p) b s")
  show ?case
  proof (cases ok)
    case True
    with Cons.prems sb show ?thesis by simp
  next
    case False
    with Cons.prems sb
    have "nextBranch (p_localPath p) bs (Error_msg (''Unable to checkout branch '' @ b) s1) = (None, s3)"
      by simp
    from Cons.IH [OF this] sb False show ?thesis by simp
  qed
qed

lemma walk_pending_Some:
  "nextBranch (p_localPath p) bs s = (Some (c, rest), s3) \<Longrightarrow>
   walk_pending X bs (p, s)
     = walk_pending X rest (processFiles X p c (Log_msg (''Analyzing branch '' @ c) s3))"
proof (induction bs arbitrary: s)
  case Nil
  then show ?case by simp
next
  case (Cons b bs)
  obtain ok s1 where sb: "Git_SetBranch (p_localPath p) b s = (ok, s1)"
    by (cases "Git_SetBranch (p_localPath p) b s")
  show ?case
  proof (cases ok)
    case True
    with Cons.prems sb show ?thesis by simp
  next
    case False
    with Cons.prems sb
    have "nextBranch (p_localPath p) bs (Error_msg (''Unable to checkout branch '' @ b) s1) = (Some (c, rest), s3)"
      by simp
    from Cons.IH [OF this] sb False show ?thesis by simp
  qed
qed

lemma branchLoop_walk:
  "distinct branches \<Longrightarrow>
   branchLoop X p branches current s
     = walk_pending X (removeAll current branches)
         (processFiles X p current (Log_msg (''Analyzing branch '' @ current) s))"
proof (induction "length branches" arbitrary: p branches current s rule: less_induct)
  case less
  let ?ps = "processFiles X p current (Log_msg (''Analyzing branch '' @ current) s)"
  let ?pending = "removeAll current branches"
  have dp: "distinct ?pending"
    using less.prems by (simp add: distinct_removeAll)
  obtain res s3 where nb: "nextBranch (p_localPath (fst ?ps)) ?pending (snd ?ps) = (res, s3)"
    by (cases "nextBranch (p_localPath (fst ?ps)) ?pending (snd ?ps)")
  show ?case
  proof (cases res)
    case None
    with nb have n: "nextBranch (p_localPath (fst ?ps)) ?pending (snd ?ps) = (None, s3)" by simp
    have "walk_pending X ?pending (fst ?ps, snd ?ps) = (fst ?ps, s3)"
      by (rule walk_pending_None [OF n])
    moreover have "branchLoop X p branches current s = (fst ?ps, s3)"
      by (rule branchLoop_done [OF n])
    ultimately show ?thesis by simp
  next
    case (Some cr)
    obtain c rest where cr: "cr = (c, rest)" by (cases cr)
    with nb Some have n: "nextBranch (p_localPath (fst ?ps)) ?pending (snd ?ps) = (Some (c, rest), s3)"
      by simp
    from nextBranch_suffix [OF n] obtain fails where f: "?pending = fails @ c # rest" by blast
    have len: "length rest < length branches"
    proof -
      have "length rest < length ?pending" using f by simp
      also have "\<dots> \<le> length branches" by (rule length_removeAll_less_eq)
      finally show ?thesis .
    qed
    from dp f have dr: "distinct rest" and cn: "c \<notin> set rest" by auto
    have "branchLoop X p branches current s = branchLoop X (fst ?ps) rest c s3"
      by (rule branchLoop_next [OF n])
    also have "\<dots> = walk_pending X (removeAll c rest)
         (processFiles X (fst ?ps) c (Log_msg (''Analyzing branch '' @ c) s3))"
      by (rule less.hyps [OF len dr])
    also have "removeAll c rest = rest" using cn by simp
    also have "walk_pending X rest (processFiles X (fst ?ps) c (Log_msg (''Analyzing branch '' @ c) s3))
        = walk_pending X ?pending (fst ?ps, snd ?ps)"
      by (rule walk_pending_Some [OF n, symmetric])
    finally show ?thesis by simp
  qed
qed

lemma distinct_GetBranches: "distinct (Git_GetBranches path s)"
  by (simp add: Git_GetBranches_def split: option.splits)

lemma processAllBranches_walk: "processAllBranches X p s = walk_branches X p s"
  unfolding processAllBranches_def walk_branches_def Let_def
  by (rule branchLoop_walk [OF distinct_GetBranches])


lemma walk_branches_demo:
  "fetched (snd (walk_branches (demoX False) demo_p demo_world))
     = [(''/data/ele/temp/0'', demo_fh), (''/data/ele/temp/0'', demo_gone), (''/data/ele/temp/0'', demo_gone)]
   \<and> map fs_commit (files (snd (walk_branches (demoX False) demo_p demo_world))) = [''c1'']
   \<and> written (snd (walk_branches (demoX False) demo_p demo_world)) = [(''/data/ele/files/0/0.raw'', ''x'')]"
  by (simp add: walk_branches_def processFiles_def processFile_def
      processHistoryEntry_def getContentId_def register_hash_def store_text_def
      Git_GetBranches_def Git_GetCurrentBranch_def Git_SetBranch_def Git_GetFileInfo_def
      Git_GetFileHistory_def Git_GetFileRevision_def createPathIfMissing_def
      Log_msg_def Error_msg_def cout_def FilesPath_def OutputPath_def
      show_long_def show_nat.simps digit_char_def word_sless_alt Let_def
      initial_def demoX_def demo_repo_def demo_fh_def demo_gone_def demo_p_def demo_world_def
      FileSnapshot_of_def fs_eq_def)

text \<open>
  C7. \<open>processAllBranches\<close> does exactly this walk: it announces and processes
  (\<open>processFiles\<close>) the branch that is checked out; then every other branch is taken
  exactly once, in the order of the set: a branch whose checkout succeeds is announced
  and processed with that branch checked out, a branch whose checkout fails is reported
  by \<open>Error\<close> and skipped, and the walk goes on with the branches after it. The
  function is total: the walk ends, and it ends only when every pending branch has been
  taken. With a working copy at the project's path the messages are, in order, the one
  for the current branch and one for each remaining branch.
\<close>

theorem branches_each_once:
  "processAllBranches X p s = walk_branches X p s
   \<and> (repos s (p_localPath p) = Some r \<longrightarrow>
        branch_events (out (snd (processAllBranches X p s)))
          = branch_events (out s) @ Log (''Analyzing branch '' @ g_current r)
              # map (branch_report (g_checkout r)) (removeAll (g_current r) (remdups (g_branches r)))
        \<and> distinct (removeAll (g_current r) (remdups (g_branches r)))
        \<and> set (removeAll (g_current r) (remdups (g_branches r))) = set (g_branches r) - {g_current r})"
proof (intro conjI impI)
  show "processAllBranches X p s = walk_branches X p s"
    by (rule processAllBranches_walk)
next
  assume r: "repos s (p_localPath p) = Some r"
  have d: "distinct (Git_GetBranches (p_localPath p) s)"
    by (rule distinct_GetBranches)
  from branchLoop_events [OF r d, of X "Git_GetCurrentBranch (p_localPath p) s"] r
  show "branch_events (out (snd (processAllBranches X p s)))
          = branch_events (out s) @ Log (''Analyzing branch '' @ g_current r)
              # map (branch_report (g_checkout r)) (removeAll (g_current r) (remdups (g_branches r)))"
    by (simp add: processAllBranches_def Git_GetBranches_def Git_GetCurrentBranch_def)
next
  show "distinct (removeAll (g_current r) (remdups (g_branches r)))"
    by (simp add: distinct_removeAll)
next
  show "set (removeAll (g_current r) (remdups (g_branches r))) = set (g_branches r) - {g_current r}"
    by simp
qed

theorem branches_each_once_witness:
  "repos demo_world (p_localPath demo_p) = Some demo_repo
   \<and> branch_events (out (snd (processAllBranches (demoX False) demo_p demo_world)))
       = [Log ''Analyzing branch B'', Error ''Unable to checkout branch A'', Log ''Analyzing branch C'']
   \<and> fetched (snd (processAllBranches (demoX False) demo_p demo_world))
       = [(''/data/ele/temp/0'', demo_fh), (''/data/ele/temp/0'', demo_gone), (''/data/ele/temp/0'', demo_gone)]
   \<and> map fs_commit (files (snd (processAllBranches (demoX False) demo_p demo_world))) = [''c1'']
   \<and> written (snd (processAllBranches (demoX False) demo_p demo_world)) = [(''/data/ele/files/0/0.raw'', ''x'')]"
proof -
  have r: "repos demo_world (p_localPath demo_p) = Some demo_repo"
    by (simp add: demo_world_def demo_p_def)
  note t = branches_each_once [of "demoX False" demo_p demo_world demo_repo]
  from t have e: "processAllBranches (demoX False) demo_p demo_world
                    = walk_branches (demoX False) demo_p demo_world"
    by blast
  from t r have "branch_events (out (snd (processAllBranches (demoX False) demo_p demo_world)))
       = branch_events (out demo_world) @ Log (''Analyzing branch '' @ g_current demo_repo)
           # map (branch_report (g_checkout demo_repo))
               (removeAll (g_current demo_repo) (remdups (g_branches demo_repo)))"
    by blast
  also have "\<dots> = [Log ''Analyzing branch B'', Error ''Unable to checkout branch A'', Log ''Analyzing branch C'']"
    by (simp add: demo_repo_def branch_report_def branch_events_def demo_world_def initial_def)
  finally have ev: "branch_events (out (snd (processAllBranches (demoX False) demo_p demo_world)))
       = [Log ''Analyzing branch B'', Error ''Unable to checkout branch A'', Log ''Analyzing branch C'']" .
  from walk_branches_demo have "fetched (snd (processAllBranches (demoX False) demo_p demo_world))
       = [(''/data/ele/temp/0'', demo_fh), (''/data/ele/temp/0'', demo_gone), (''/data/ele/temp/0'', demo_gone)]
   \<and> map fs_commit (files (snd (processAllBranches (demoX False) demo_p demo_world))) = [''c1'']
   \<and> written (snd (processAllBranches (demoX False) demo_p demo_world)) = [(''/data/ele/files/0/0.raw'', ''x'')]"
    unfolding e .
  with r ev show ?thesis by blast
qed


section \<open>A whole project\<close>

lemmas run_eval = run_def download_def processAllBranches_def branchLoop.simps processFiles_def processFile_def
  processHistoryEntry_def getContentId_def register_hash_def store_text_def deleteProject_def deletePath_def
  Git_Clone_def Git_GetBranches_def Git_GetCurrentBranch_def Git_SetBranch_def Git_GetFileInfo_def
  Git_GetFileHistory_def Git_GetFileRevision_def createPathIfMissing_def isDirectory_def inside_def
  Log_msg_def Error_msg_def cout_def TempPath_def FilesPath_def OutputPath_def show_Project_def
  show_long_def show_nat.simps digit_char_def word_sless_alt Let_def
  initial_def demoX_def demo_repo_def demo_fh_def demo_gone_def FileSnapshot_of_def fs_eq_def

lemma after_first_eq: "after_first = 
  \<lparr>fileHashes = [(''x'', 0)],
   files = [\<lparr>fs_id = 0, fs_commit = ''c1'', fs_relPath = ''a.js'', fs_contentId = None, fs_time = 1\<rparr>],
   idIndex = 0, queue = [],
   out = [Log ''Processing task good [0]'',
       Log ''good [0] successfully cloned to local path /data/ele/temp/0'',
       Log ''Analyzing branch B'', Error ''Unable to checkout branch A'',
       Log ''Analyzing branch C'', Log ''/data/ele/temp/0 deleted.''],
   dirs = [''/data/ele/files/0''],
   written = [(''/data/ele/files/0/0.raw'', ''x'')],
   repos = Map.empty,
   fetched = [(''/data/ele/temp/0'', demo_fh), (''/data/ele/temp/0'', demo_gone), (''/data/ele/temp/0'', demo_gone)]\<rparr>"
  unfolding after_first_def
  by (simp add: run_eval demo_task_def)

text \<open>
  C3. \<open>run\<close> never empties \<open>files_\<close>, a member of the \<open>Downloader\<close> object that runs
  one task after the other. The worker first runs the project \<open>good\<close>: the entry
  \<open>(c1, a.js)\<close> is fetched and stored. It then runs the project \<open>fork\<close>, whose
  history has the same commit and path: the entry is skipped, only the absent revision is
  asked for again, and no snapshot is added. With an empty set at the start of the second
  project the entry is fetched.
\<close>

theorem snapshot_set_outlives_project:
  "fetched after_first
     = [(''/data/ele/temp/0'', demo_fh), (''/data/ele/temp/0'', demo_gone), (''/data/ele/temp/0'', demo_gone)]
   \<and> fetched (snd (snd (run (demoX False) (demo_task ''fork'' 1) after_first)))
     = fetched after_first @ [(''/data/ele/temp/1'', demo_gone), (''/data/ele/temp/1'', demo_gone)]
   \<and> files (snd (snd (run (demoX False) (demo_task ''fork'' 1) after_first))) = files after_first
   \<and> fetched (snd (snd (run (demoX False) (demo_task ''fork'' 1) (after_first\<lparr>files := []\<rparr>))))
     = fetched after_first @ [(''/data/ele/temp/1'', demo_fh), (''/data/ele/temp/1'', demo_gone), (''/data/ele/temp/1'', demo_gone)]"
  unfolding after_first_eq
  by (simp add: run_eval demo_task_def)

text \<open>Teardown is the last statement of \<open>run\<close>: it is reached exactly when \<open>download\<close> did not throw.\<close>

lemma deleteProject_removes: "\<not> isDirectory (p_localPath p) (deleteProject p s)"
  by (simp add: deleteProject_def deletePath_def Log_msg_def isDirectory_def inside_def)

lemma run_success_removes_workspace:
  assumes "fst (run X task s) = None"
  shows "\<not> isDirectory (p_localPath (fst (snd (run X task s)))) (snd (snd (run X task s)))"
proof -
  obtain e p s1 where d: "download X task (Log_msg (''Processing task '' @ show_Project task) s) = (e, p, s1)"
    by (cases "download X task (Log_msg (''Processing task '' @ show_Project task) s)")
  with assms have e: "e = None"
    by (cases e) (simp_all add: run_def)
  obtain p2 s2 where b: "processAllBranches X p s1 = (p2, s2)"
    by (cases "processAllBranches X p s1")
  from d e b have "run X task s = (None, p2, deleteProject p2 s2)"
    by (simp add: run_def)
  then show ?thesis
    by (simp add: deleteProject_removes)
qed

lemma run_failure_skips_teardown:
  assumes "remote X (p_gitUrl task) = CloneFailed True"
  shows "fst (run X task s) \<noteq> None
         \<and> isDirectory (TempPath @ ''/'' @ show_long (p_id task)) (snd (snd (run X task s)))"
  using assms
  by (simp add: run_def download_def Git_Clone_def Let_def createPathIfMissing_def isDirectory_def
      deletePath_def Log_msg_def)


text \<open>
  C5. The clone of \<open>bad\<close> fails after the directory was created: \<open>download\<close> throws,
  the exception leaves \<open>run\<close> before \<open>deleteProject\<close>, and the workspace
  \<open>/data/ele/temp/0\<close> still exists. After the successful run of \<open>good\<close> it does
  not.
\<close>

theorem failed_clone_keeps_workspace:
  "fst (run (demoX False) (demo_task ''bad'' 0) initial) = Some (runtime_error ''Unable to download project bad'')
   \<and> p_localPath (fst (snd (run (demoX False) (demo_task ''bad'' 0) initial))) = ''/data/ele/temp/0''
   \<and> isDirectory ''/data/ele/temp/0'' (snd (snd (run (demoX False) (demo_task ''bad'' 0) initial)))
   \<and> fst (run (demoX False) (demo_task ''good'' 0) initial) = None
   \<and> \<not> isDirectory ''/data/ele/temp/0'' (snd (snd (run (demoX False) (demo_task ''good'' 0) initial)))"
  by (simp add: run_eval demo_task_def)


end
